theory Spec2Isabelle
  imports Main "HOL-Library.AList"
begin

section \<open>Python values used by \<open>controller.py\<close>\<close>

text \<open>
  The shard handler of \<open>controller.py\<close> works on Python integers (unbounded, modelled as
  \<open>int\<close>), Python strings (\<open>string\<close>) and an insertion-ordered dictionary (an association
  list updated with \<open>AList.update\<close>, which replaces the value of a key in place and
  appends a new key at the end, as \<open>dict.update\<close> does).
\<close>

subsection \<open>\<open>str(int)\<close> and \<open>int(str)\<close>\<close>

definition digit_char :: "nat \<Rightarrow> char" where
  "digit_char d = ''0123456789'' ! d"

fun digits :: "nat \<Rightarrow> string" where
  "digits n = (if n < 10 then [digit_char n] else digits (n div 10) @ [digit_char (n mod 10)])"

declare digits.simps [simp del]

text \<open>\<open>str(i)\<close>, also what an f-string prints for \<open>{i}\<close>.\<close>

definition py_str :: "int \<Rightarrow> string" where
  "py_str i = (if i < 0 then CHR ''-'' # digits (nat (- i)) else digits (nat i))"

text \<open>The position of a character in a string, if it occurs.\<close>

fun index_of :: "char \<Rightarrow> string \<Rightarrow> nat option" where
  "index_of c [] = None"
| "index_of c (x # xs) = (if c = x then Some 0 else map_option Suc (index_of c xs))"

definition digit_val :: "char \<Rightarrow> nat option" where
  "digit_val c = index_of c ''0123456789''"

text \<open>
  The digits of a decimal literal after its first digit, with \<open>acc\<close> the value read so far:
  an underscore is allowed between two digits only.
\<close>

fun parse_body :: "nat \<Rightarrow> string \<Rightarrow> nat option" where
  "parse_body acc [] = Some acc"
| "parse_body acc [c] = (case digit_val c of None \<Rightarrow> None | Some v \<Rightarrow> Some (10 * acc + v))"
| "parse_body acc (c # d # ds) =
     (if c = CHR ''_'' then
        (case digit_val d of None \<Rightarrow> None | Some v \<Rightarrow> parse_body (10 * acc + v) ds)
      else
        (case digit_val c of None \<Rightarrow> None | Some v \<Rightarrow> parse_body (10 * acc + v) (d # ds)))"

definition parse_number :: "string \<Rightarrow> nat option" where
  "parse_number s =
     (case s of
        [] \<Rightarrow> None
      | c # cs \<Rightarrow> (case digit_val c of None \<Rightarrow> None | Some v \<Rightarrow> parse_body v cs))"

text \<open>The white space of ASCII, as \<open>str.isspace\<close> has it.\<close>

definition is_space :: "char \<Rightarrow> bool" where
  "is_space c =
     (c \<in> set [CHR 0x09, CHR 0x0A, CHR 0x0B, CHR 0x0C, CHR 0x0D,
                CHR 0x1C, CHR 0x1D, CHR 0x1E, CHR 0x1F, CHR 0x20])"

definition strip_space :: "string \<Rightarrow> string" where
  "strip_space s = rev (dropWhile is_space (rev (dropWhile is_space s)))"

text \<open>
  \<open>int(z)\<close> on a string: white space around, an optional sign, then decimal digits with
  single underscores allowed between them; anything else is Python's \<open>ValueError\<close>
  (\<open>None\<close> here). A character is a byte here, so the white space and the digits beyond
  ASCII that Python also accepts are not covered; the keys that \<open>write_map\<close> persists are
  always \<open>str\<close> of an integer.
\<close>

definition py_int :: "string \<Rightarrow> int option" where
  "py_int s =
     (case strip_space s of
        [] \<Rightarrow> None
      | c # cs \<Rightarrow>
          if c = CHR ''-'' then map_option (\<lambda>n. - int n) (parse_number cs)
          else if c = CHR ''+'' then map_option int (parse_number cs)
          else map_option int (parse_number (c # cs)))"

text \<open>\<open>[int(z) for z in keys]\<close>: the first key that does not parse raises.\<close>

fun int_keys :: "string list \<Rightarrow> int list option" where
  "int_keys [] = Some []"
| "int_keys (z # zs) =
     (case py_int z of
        None \<Rightarrow> None
      | Some k \<Rightarrow> (case int_keys zs of None \<Rightarrow> None | Some ks \<Rightarrow> Some (k # ks)))"

subsection \<open>Slices\<close>

text \<open>An index of a slice, clamped as Python does: negative indices count from the end.\<close>

definition slice_index :: "'a list \<Rightarrow> int \<Rightarrow> nat" where
  "slice_index xs i =
     (let n = int (length xs) in nat (if i < 0 then max 0 (i + n) else min i n))"

text \<open>\<open>data[a:b]\<close> and \<open>data[a:]\<close>.\<close>

definition py_slice :: "'a list \<Rightarrow> int \<Rightarrow> int \<Rightarrow> 'a list" where
  "py_slice xs a b = take (slice_index xs b - slice_index xs a) (drop (slice_index xs a) xs)"

definition py_slice_from :: "'a list \<Rightarrow> int \<Rightarrow> 'a list" where
  "py_slice_from xs a = drop (slice_index xs a) xs"

text \<open>\<open>range(count)\<close>: empty for a count that is zero or negative.\<close>

definition py_range :: "int \<Rightarrow> int list" where
  "py_range count = map int [0..<nat count]"

text \<open>\<open>enumerate(xs)\<close>, counting from \<open>n\<close>.\<close>

fun enumerate_from :: "int \<Rightarrow> 'a list \<Rightarrow> (int \<times> 'a) list" where
  "enumerate_from n [] = []"
| "enumerate_from n (x # xs) = (n, x) # enumerate_from (n + 1) xs"

text \<open>\<open>max(keys)\<close>: \<open>ValueError\<close> (\<open>None\<close>) on an empty list.\<close>

definition py_max :: "int list \<Rightarrow> int option" where
  "py_max ks = (case ks of [] \<Rightarrow> None | k # ks' \<Rightarrow> Some (fold max ks' k))"

section \<open>The handler and its files\<close>

datatype error = ZeroDivisionError | IndexError | ValueError | KeyError | FileNotFoundError

text \<open>One entry of the mapping: \<open>{'start': s, 'end': e}\<close>.\<close>

record byte_range =
  range_start :: int
  range_end :: int

type_synonym shard_mapping = "(string \<times> byte_range) list"

text \<open>
  The state is the three attributes of a \<open>ShardHandler\<close> (\<open>mapping\<close>,
  \<open>last_char_position\<close>, \<open>rep_count\<close>) and the files it works on:
  \<^item> \<open>mapfile\<close>: the dictionary stored in \<open>mapping.json\<close>, \<open>None\<close> while the file does not
    exist (\<open>json.dump\<close> followed by \<open>json.load\<close> gives the dictionary back, in the same
    key order);
  \<^item> \<open>data_dir\<close>: the directory \<open>data/\<close>, \<open>None\<close> while it does not exist, otherwise its
    regular files as an association list from file name to content;
  \<^item> \<open>cwd_files\<close>: the names of the other regular files of the working directory, which
    \<open>os.path.isfile(name)\<close> of \<open>sync_replication\<close> looks at.
  The \<open>print\<close> calls of the source are not modelled.
\<close>

record state =
  mapping :: shard_mapping
  last_char_position :: int
  rep_count :: int
  mapfile :: "shard_mapping option"
  data_dir :: "(string \<times> string) list option"
  cwd_files :: "string list"

text \<open>\<open>f"{key}.txt"\<close> and \<open>f"{key}-{rep}.txt"\<close>, the names below \<open>data/\<close>.\<close>

definition shard_file :: "string \<Rightarrow> string" where
  "shard_file db = db @ ''.txt''"

definition replica_file :: "int \<Rightarrow> int \<Rightarrow> string" where
  "replica_file key rep = py_str key @ ''-'' @ py_str rep @ ''.txt''"

text \<open>
  The characters stored in \<open>data/name\<close>: \<open>None\<close> when the file (or the directory) does not
  exist, which is also \<open>os.path.exists\<close>.
\<close>

definition read_data :: "string \<Rightarrow> state \<Rightarrow> string option" where
  "read_data name st = (case data_dir st of None \<Rightarrow> None | Some fs \<Rightarrow> map_of fs name)"

definition data_exists :: "string \<Rightarrow> state \<Rightarrow> bool" where
  "data_exists name st = (read_data name st \<noteq> None)"

text \<open>
  What reading in text mode does to the stored characters (\<open>open(..., 'r')\<close> has
  universal newlines): a carriage return followed by a line feed, and a carriage return
  alone, both come back as one line feed. Writing in text mode on a POSIX system stores the
  characters as they are.
\<close>

fun universal_newlines :: "string \<Rightarrow> string" where
  "universal_newlines [] = []"
| "universal_newlines [c] = [if c = CHR 0x0D then CHR 0x0A else c]"
| "universal_newlines (c # d # ds) =
     (if c = CHR 0x0D then
        (if d = CHR 0x0A then CHR 0x0A # universal_newlines ds
         else CHR 0x0A # universal_newlines (d # ds))
      else c # universal_newlines (d # ds))"

text \<open>\<open>open(f"data/{name}", 'r')\<close> followed by \<open>read()\<close>, \<open>None\<close> when the file is missing.\<close>

definition read_text :: "string \<Rightarrow> state \<Rightarrow> string option" where
  "read_text name st = map_option universal_newlines (read_data name st)"

text \<open>
  \<open>open(f"data/{name}", 'w')\<close> followed by \<open>write\<close>. Every call site writes after
  \<open>data/\<close> is known to exist (it has just been created, listed or read from), so the
  branch for a missing directory is only there to make the function total.
\<close>

definition write_data :: "string \<Rightarrow> string \<Rightarrow> state \<Rightarrow> state" where
  "write_data name content st =
     st\<lparr>data_dir := Some (AList.update name content (case data_dir st of None \<Rightarrow> [] | Some fs \<Rightarrow> fs))\<rparr>"


text \<open>The handler as \<open>__init__\<close> leaves it, over the given files.\<close>

definition load_map :: "state \<Rightarrow> shard_mapping" where
  "load_map st = (case mapfile st of None \<Rightarrow> [] | Some m \<Rightarrow> m)"

definition write_map :: "state \<Rightarrow> state" where
  "write_map st = st\<lparr>mapfile := Some (mapping st)\<rparr>"

definition new_handler ::
  "shard_mapping option \<Rightarrow> (string \<times> string) list option \<Rightarrow> string list \<Rightarrow> state" where
  "new_handler mf dd cwd =
     \<lparr>mapping = (case mf of None \<Rightarrow> [] | Some m \<Rightarrow> m), last_char_position = 0, rep_count = 1,
      mapfile = mf, data_dir = dd, cwd_files = cwd\<rparr>"

definition reset_char_position :: "state \<Rightarrow> state" where
  "reset_char_position st = st\<lparr>last_char_position := 0\<rparr>"

section \<open>Building the shards\<close>

text \<open>
  \<open>_write_shard\<close>: creates \<open>data/\<close> when missing, writes the shard, resets the running
  position at shard 0, then records the range: the start is the running position when
  that is 0 and the running position plus one otherwise.
\<close>

definition write_shard :: "int \<Rightarrow> string \<Rightarrow> state \<Rightarrow> state" where
  "write_shard num d st =
     (let st1 = write_data (shard_file (py_str num)) d st;
          st2 = (if num = 0 then reset_char_position st1 else st1);
          lcp = last_char_position st2;
          st3 = st2\<lparr>mapping :=
                  AList.update (py_str num)
                    \<lparr>range_start = (if lcp = 0 then lcp else lcp + 1),
                     range_end = lcp + int (length d)\<rparr>
                    (mapping st2)\<rparr>
      in st3\<lparr>last_char_position := lcp + int (length d)\<rparr>)"

text \<open>\<open>for num, d in enumerate(spliced_data): self._write_shard(num, d)\<close>\<close>

fun write_shards :: "(int \<times> string) list \<Rightarrow> state \<Rightarrow> state" where
  "write_shards [] st = st"
| "write_shards ((num, d) # rest) st = write_shards rest (write_shard num d st)"

text \<open>
  \<open>_generate_sharded_data\<close>. \<open>divmod\<close> raises on a zero count; Python's floor division
  and modulo agree with \<open>div\<close> and \<open>mod\<close> on \<open>int\<close>. \<open>result[-1]\<close> raises on an empty
  list.
\<close>

definition generate_sharded_data :: "int \<Rightarrow> string \<Rightarrow> error + string list" where
  "generate_sharded_data count data =
     (if count = 0 then Inl ZeroDivisionError
      else
        let splicenum = int (length data) div count;
            rem = int (length data) mod count;
            result = map (\<lambda>z. py_slice data (splicenum * z) (splicenum * (z + 1))) (py_range count)
        in if rem > 0 then
             (if result = [] then Inl IndexError
              else Inr (butlast result @ [last result @ py_slice_from data (- rem)]))
           else Inr result)"

text \<open>The message \<open>build_shards\<close> returns when a mapping already exists.\<close>

definition already_sharded :: string where
  "already_sharded = ''Cannot build shard setup -- sharding already exists.''"

text \<open>
  \<open>build_shards\<close>: returns the message (and does nothing else) on a non-empty mapping,
  otherwise \<open>None\<close> after writing every shard and the map file. An exception leaves the
  state as it was when raised. The text is always a string here (the default \<open>None\<close> of
  the source is a type error in \<open>len\<close>).
\<close>

definition build_shards :: "int \<Rightarrow> string \<Rightarrow> state \<Rightarrow> (error + string option) \<times> state" where
  "build_shards count data st =
     (if mapping st \<noteq> [] then (Inr (Some already_sharded), st)
      else
        case generate_sharded_data count data of
          Inl e \<Rightarrow> (Inl e, st)
        | Inr spliced_data \<Rightarrow>
            (Inr None, write_map (write_shards (enumerate_from 0 spliced_data) st)))"

text \<open>
  \<open>load_data_from_shards\<close>: reads \<open>data/{db}.txt\<close> for every key of the mapping, in the
  order of the dictionary; a missing file raises.
\<close>

fun read_shards :: "string list \<Rightarrow> state \<Rightarrow> error + string list" where
  "read_shards [] st = Inr []"
| "read_shards (db # dbs) st =
     (case read_text (shard_file db) st of
        None \<Rightarrow> Inl FileNotFoundError
      | Some c \<Rightarrow> (case read_shards dbs st of Inl e \<Rightarrow> Inl e | Inr cs \<Rightarrow> Inr (c # cs)))"

definition load_data_from_shards :: "state \<Rightarrow> error + string" where
  "load_data_from_shards st =
     (case read_shards (map fst (mapping st)) st of Inl e \<Rightarrow> Inl e | Inr cs \<Rightarrow> Inr (concat cs))"

section \<open>Replication and the sync pass\<close>

text \<open>
  \<open>max_files\<close> of \<open>sync_replication\<close>: the number of names listed in \<open>data/\<close> for which
  \<open>os.path.isfile(name)\<close> holds. The name is not joined with \<open>data/\<close>, so the test looks
  for a regular file of that name in the working directory (\<open>mapping.json\<close> or one of
  \<open>cwd_files\<close>).
\<close>

definition isfile_cwd :: "string \<Rightarrow> state \<Rightarrow> bool" where
  "isfile_cwd name st = ((name = ''mapping.json'' \<and> mapfile st \<noteq> None) \<or> name \<in> set (cwd_files st))"

definition listdir_data :: "(string \<times> string) list \<Rightarrow> string list" where
  "listdir_data fs = remdups (map fst fs)"

definition max_files :: "(string \<times> string) list \<Rightarrow> state \<Rightarrow> nat" where
  "max_files fs st = length (filter (\<lambda>name. isfile_cwd name st) (listdir_data fs))"

text \<open>
  The loop over the levels of a shard whose primary exists, with content \<open>a\<close>: the
  second argument counts the iterations that remain (\<open>i\<close> runs from 0 to \<open>max_files\<close>).
\<close>

fun sync_replicas :: "string \<Rightarrow> int \<Rightarrow> nat \<Rightarrow> state \<Rightarrow> state" where
  "sync_replicas a key 0 st = st"
| "sync_replicas a key (Suc n) st =
     (let st1 =
        (case read_text (replica_file key (rep_count st)) st of
           None \<Rightarrow> st
         | Some b \<Rightarrow> if a \<noteq> b then write_data (replica_file key (rep_count st)) a st else st)
      in sync_replicas a key n (st1\<lparr>rep_count := rep_count st1 + 1\<rparr>))"

type_synonym sync_result = "((error + unit) \<times> state) option"

text \<open>
  The loop over the levels of a shard whose primary is missing. \<open>rec\<close> is the recursive
  call \<open>self.sync_replication()\<close>, made right after the primary has been rewritten from a
  replica of the expected length; the loop goes on from the state the call returns, so
  with the \<open>rep_count\<close> the call left. \<open>None\<close> means that the call did not return.
\<close>

fun restore_primary :: "(state \<Rightarrow> sync_result) \<Rightarrow> int \<Rightarrow> nat \<Rightarrow> state \<Rightarrow> sync_result" where
  "restore_primary rec key 0 st = Some (Inr (), st)"
| "restore_primary rec key (Suc n) st =
     (case read_text (replica_file key (rep_count st)) st of
        None \<Rightarrow> restore_primary rec key n (st\<lparr>rep_count := rep_count st + 1\<rparr>)
      | Some a \<Rightarrow>
          (case map_of (mapping st) (py_str key) of
             None \<Rightarrow> Some (Inl KeyError, st)
           | Some r \<Rightarrow>
               if range_end r - range_start r = int (length a) then
                 (case rec (write_data (shard_file (py_str key)) a st) of
                    None \<Rightarrow> None
                  | Some (Inl e, st') \<Rightarrow> Some (Inl e, st')
                  | Some (Inr u, st') \<Rightarrow>
                      restore_primary rec key n (st'\<lparr>rep_count := rep_count st' + 1\<rparr>))
               else restore_primary rec key n (st\<lparr>rep_count := rep_count st + 1\<rparr>)))"

text \<open>\<open>for key in keys\<close> of \<open>sync_replication\<close>, with \<open>mf\<close> the value of \<open>max_files\<close>.\<close>

fun sync_keys :: "(state \<Rightarrow> sync_result) \<Rightarrow> nat \<Rightarrow> int list \<Rightarrow> state \<Rightarrow> sync_result" where
  "sync_keys rec mf [] st = Some (Inr (), st)"
| "sync_keys rec mf (key # keys) st =
     (let st1 = st\<lparr>rep_count := 1\<rparr> in
      case read_text (shard_file (py_str key)) st1 of
        Some a \<Rightarrow> sync_keys rec mf keys (sync_replicas a key (Suc mf) st1)
      | None \<Rightarrow>
          (case restore_primary rec key (Suc mf) st1 of
             None \<Rightarrow> None
           | Some (Inl e, st') \<Rightarrow> Some (Inl e, st')
           | Some (Inr u, st') \<Rightarrow> sync_keys rec mf keys st'))"

text \<open>
  The body of \<open>sync_replication\<close>: reload the mapping, parse and sort the keys, list
  \<open>data/\<close> (which raises when the directory is missing), then the loop.
\<close>

definition sync_body :: "(state \<Rightarrow> sync_result) \<Rightarrow> state \<Rightarrow> sync_result" where
  "sync_body rec st =
     (let st1 = st\<lparr>mapping := load_map st\<rparr> in
      case int_keys (map fst (mapping st1)) of
        None \<Rightarrow> Some (Inl ValueError, st1)
      | Some keys \<Rightarrow>
          (case data_dir st1 of
             None \<Rightarrow> Some (Inl FileNotFoundError, st1)
           | Some fs \<Rightarrow> sync_keys rec (max_files fs st1) (sort keys) st1))"

text \<open>
  \<open>sync_replication\<close>, with a bound on the depth of its recursion: \<open>None\<close> when the bound
  is reached.
\<close>

fun sync_replication :: "nat \<Rightarrow> state \<Rightarrow> sync_result" where
  "sync_replication 0 st = None"
| "sync_replication (Suc n) st = sync_body (sync_replication n) st"

text \<open>
  The number of shards of the persisted mapping whose primary file is missing (0 when a
  key does not parse: the pass then raises at once).
\<close>

definition missing_primaries :: "state \<Rightarrow> nat" where
  "missing_primaries st =
     (case int_keys (map fst (load_map st)) of
        None \<Rightarrow> 0
      | Some keys \<Rightarrow>
          length (filter (\<lambda>k. \<not> data_exists (shard_file (py_str k)) st) (remdups keys)))"

text \<open>
  What every step of the sync pass keeps: the map file, the working directory and the
  existence of each file of \<open>data/\<close> (the pass writes files and removes none).
\<close>

definition files_kept :: "state \<Rightarrow> state \<Rightarrow> bool" where
  "files_kept st st' \<longleftrightarrow>
     mapfile st' = mapfile st \<and> cwd_files st' = cwd_files st \<and>
     (\<forall>name. data_exists name st \<longrightarrow> data_exists name st')"

section \<open>Changing the topology\<close>

text \<open>
  \<open>add_shard\<close>: reload the mapping, read every shard, split the text again over
  \<open>max(keys) + 2\<close> shards, write them and the map file, then run the sync pass (with the
  given bound on its recursion depth).
\<close>

definition add_shard :: "nat \<Rightarrow> state \<Rightarrow> sync_result" where
  "add_shard depth st =
     (let st1 = st\<lparr>mapping := load_map st\<rparr> in
      case load_data_from_shards st1 of
        Inl e \<Rightarrow> Some (Inl e, st1)
      | Inr data \<Rightarrow>
          (case int_keys (map fst (mapping st1)) of
             None \<Rightarrow> Some (Inl ValueError, st1)
           | Some keys \<Rightarrow>
               (case py_max (sort keys) of
                  None \<Rightarrow> Some (Inl ValueError, st1)
                | Some m \<Rightarrow>
                    (case generate_sharded_data (m + 2) data of
                       Inl e \<Rightarrow> Some (Inl e, st1)
                     | Inr spliced_data \<Rightarrow>
                         sync_replication depth
                           (write_map (write_shards (enumerate_from 0 spliced_data) st1))))))"



text \<open>
  \<open>while os.path.exists(f'data/{key}-{rep_count}.txt'): rep_count += 1\<close>, from level
  \<open>r\<close>: the first level at or above \<open>r\<close> with no replica file of the shard.
\<close>

function free_level :: "state \<Rightarrow> int \<Rightarrow> int \<Rightarrow> int" where
  "free_level st key r =
     (if data_exists (replica_file key r) st then free_level st key (r + 1) else r)"
  by pat_completeness auto

text \<open>\<open>for key in keys\<close> of \<open>add_replication\<close>: copy each primary to the new level.\<close>

fun copy_primaries :: "int list \<Rightarrow> state \<Rightarrow> (error + unit) \<times> state" where
  "copy_primaries [] st = (Inr (), st)"
| "copy_primaries (key # keys) st =
     (case read_text (shard_file (py_str key)) st of
        None \<Rightarrow> (Inl FileNotFoundError, st)
      | Some a \<Rightarrow> copy_primaries keys (write_data (replica_file key (rep_count st)) a st))"

text \<open>
  \<open>add_replication\<close>. \<open>keys[0]\<close> raises on an empty mapping. The last statement of the
  source, \<open>self.sync_replication\<close>, names the method without calling it, so nothing
  follows the copies.
\<close>

definition add_replication :: "state \<Rightarrow> (error + unit) \<times> state" where
  "add_replication st =
     (let st1 = st\<lparr>mapping := load_map st\<rparr> in
      case int_keys (map fst (mapping st1)) of
        None \<Rightarrow> (Inl ValueError, st1)
      | Some keys \<Rightarrow>
          (case sort keys of
             [] \<Rightarrow> (Inl IndexError, st1)
           | k0 # ks \<Rightarrow>
               (let st2 =
                  (if data_exists (replica_file k0 (rep_count st1)) st1
                   then st1\<lparr>rep_count := free_level st1 k0 (rep_count st1)\<rparr>
                   else st1)
                in copy_primaries (k0 # ks) st2)))"

section \<open>Reading the mapping\<close>

text \<open>The argument of \<open>get_shard_data\<close>: nothing, an integer or a string.\<close>

datatype shard_arg = PyNone | PyInt int | PyStr string

text \<open>Python's truth value of such an argument.\<close>

fun truthy :: "shard_arg \<Rightarrow> bool" where
  "truthy PyNone = False"
| "truthy (PyInt i) = (i \<noteq> 0)"
| "truthy (PyStr s) = (s \<noteq> [])"

text \<open>\<open>self.mapping.get(shardnum)\<close>: the keys are strings, so only a string can be found.\<close>

fun mapping_get :: "shard_mapping \<Rightarrow> shard_arg \<Rightarrow> byte_range option" where
  "mapping_get m (PyStr s) = map_of m s"
| "mapping_get m a = None"

text \<open>
  What \<open>get_shard_data\<close> returns: the whole mapping, the message for an unknown id (with
  the keys it lists) or the message for a shard (with the id and the entry it prints).
\<close>

datatype shard_data =
  AllShards shard_mapping
| InvalidShard "string list"
| ShardInfo shard_arg byte_range

definition get_all_shard_data :: "state \<Rightarrow> shard_mapping" where
  "get_all_shard_data st = mapping st"

definition get_shard_data :: "shard_arg \<Rightarrow> state \<Rightarrow> shard_data" where
  "get_shard_data shardnum st =
     (if \<not> truthy shardnum then AllShards (get_all_shard_data st)
      else
        case mapping_get (mapping st) shardnum of
          None \<Rightarrow> InvalidShard (map fst (mapping st))
        | Some data \<Rightarrow> ShardInfo shardnum data)"

section \<open>The split policy of the specification\<close>

text \<open>
  The split as the specification words it, for \<open>n\<close> shards: with \<open>base\<close> the length of the
  text divided by \<open>n\<close> (rounded down), the shards 0 to \<open>n - 2\<close> are the consecutive pieces of
  \<open>base\<close> characters and the last shard is all that follows them (\<open>base\<close> characters and the
  remainder). It is compared with \<open>generate_sharded_data\<close> below.
\<close>

definition split_policy :: "nat \<Rightarrow> string \<Rightarrow> string list" where
  "split_policy n data =
     (let base = length data div n in
      map (\<lambda>z. take base (drop (base * z) data)) [0..<n - 1] @ [drop (base * (n - 1)) data])"

section \<open>Facts about \<open>str\<close>, \<open>int\<close> and the file names\<close>

lemma digit_val_digit_char: "d < 10 \<Longrightarrow> digit_val (digit_char d) = Some d"
proof -
  assume "d < 10"
  then have "d \<in> {0, 1, 2, 3, 4, 5, 6, 7, 8, 9}" by auto
  then show ?thesis by (auto simp: digit_val_def digit_char_def)
qed

lemma digit_char_not_sign: "d < 10 \<Longrightarrow> digit_char d \<noteq> CHR ''-'' \<and> digit_char d \<noteq> CHR ''+''"
proof -
  assume "d < 10"
  then have "d \<in> {0, 1, 2, 3, 4, 5, 6, 7, 8, 9}" by auto
  then show ?thesis by (auto simp: digit_char_def)
qed

lemma index_of_None_iff: "index_of c xs = None \<longleftrightarrow> c \<notin> set xs"
  by (induction xs) auto

lemma digit_val_None_iff: "digit_val c = None \<longleftrightarrow> c \<notin> set ''0123456789''"
  unfolding digit_val_def by (rule index_of_None_iff)

lemma digit_val_not_underscore: "digit_val c = Some v \<Longrightarrow> c \<noteq> CHR ''_''"
  by (auto simp: digit_val_def)

lemma digit_not_space: "digit_val c = Some v \<Longrightarrow> \<not> is_space c"
proof -
  assume "digit_val c = Some v"
  then have "c \<in> set ''0123456789''" using digit_val_None_iff [of c] by auto
  then show ?thesis by (auto simp: is_space_def)
qed

lemma parse_body_snoc:
  "(\<And>x. x \<in> set cs \<Longrightarrow> digit_val x \<noteq> None) \<Longrightarrow> digit_val c = Some v \<Longrightarrow>
     parse_body acc (cs @ [c]) =
       (case parse_body acc cs of None \<Rightarrow> None | Some a \<Rightarrow> Some (10 * a + v))"
proof (induction cs arbitrary: acc)
  case Nil
  then show ?case by simp
next
  case (Cons x xs)
  obtain w where w: "digit_val x = Some w" using Cons.prems(1) [of x] by auto
  then have nu: "x \<noteq> CHR ''_''" by (rule digit_val_not_underscore)
  have ih: "parse_body (10 * acc + w) (xs @ [c]) =
      (case parse_body (10 * acc + w) xs of None \<Rightarrow> None | Some a \<Rightarrow> Some (10 * a + v))"
    by (rule Cons.IH) (simp_all add: Cons.prems)
  have step: "\<And>ys. parse_body acc (x # ys) = parse_body (10 * acc + w) ys"
  proof -
    fix ys show "parse_body acc (x # ys) = parse_body (10 * acc + w) ys"
      using w nu by (cases ys) simp_all
  qed
  show ?case using ih by (simp only: append_Cons step)
qed

lemma digits_are_digits: "x \<in> set (digits n) \<Longrightarrow> digit_val x \<noteq> None"
proof (induction n rule: digits.induct)
  case (1 n)
  show ?case
  proof (cases "n < 10")
    case True
    with "1.prems" show ?thesis by (simp add: digits.simps [of n] digit_val_digit_char)
  next
    case False
    with "1.prems" have "x \<in> set (digits (n div 10)) \<or> x = digit_char (n mod 10)"
      by (auto simp: digits.simps [of n])
    then show ?thesis
    proof
      assume "x \<in> set (digits (n div 10))"
      with False "1.IH" show ?thesis by blast
    next
      assume "x = digit_char (n mod 10)"
      then show ?thesis by (simp add: digit_val_digit_char)
    qed
  qed
qed

lemma parse_number_digits: "parse_number (digits n) = Some n"
proof (induction n rule: digits.induct)
  case (1 n)
  show ?case
  proof (cases "n < 10")
    case True
    then show ?thesis by (simp add: digits.simps [of n] parse_number_def digit_val_digit_char)
  next
    case False
    then have ih: "parse_number (digits (n div 10)) = Some (n div 10)" by (rule "1.IH")
    then obtain c cs where d: "digits (n div 10) = c # cs"
      by (cases "digits (n div 10)") (auto simp: parse_number_def)
    obtain w where w: "digit_val c = Some w" using digits_are_digits [of c "n div 10"] d by auto
    have body: "parse_body w cs = Some (n div 10)" using ih by (simp add: d parse_number_def w)
    have "parse_body w (cs @ [digit_char (n mod 10)]) =
        (case parse_body w cs of None \<Rightarrow> None | Some a \<Rightarrow> Some (10 * a + n mod 10))"
    proof (rule parse_body_snoc)
      fix x assume "x \<in> set cs"
      then have "x \<in> set (digits (n div 10))" by (simp add: d)
      then show "digit_val x \<noteq> None" by (rule digits_are_digits)
    next
      show "digit_val (digit_char (n mod 10)) = Some (n mod 10)" by (simp add: digit_val_digit_char)
    qed
    with body have "parse_body w (cs @ [digit_char (n mod 10)]) = Some n" by simp
    with False show ?thesis by (simp add: digits.simps [of n] d parse_number_def w)
  qed
qed

lemma digits_not_Nil: "digits n \<noteq> []"
  by (simp add: digits.simps [of n])

lemma digits_no_sign: "CHR ''-'' \<notin> set (digits n) \<and> CHR ''+'' \<notin> set (digits n)"
  using digits_are_digits [of "CHR ''-''" n] digits_are_digits [of "CHR ''+''" n]
  by (auto simp: digit_val_def)

lemma strip_space_id: "(\<And>x. x \<in> set s \<Longrightarrow> \<not> is_space x) \<Longrightarrow> strip_space s = s"
proof -
  assume no: "\<And>x. x \<in> set s \<Longrightarrow> \<not> is_space x"
  have "dropWhile is_space s = s" using no by (cases s) simp_all
  moreover have "dropWhile is_space (rev s) = rev s" using no by (cases "rev s" rule: list.exhaust)
      (simp, metis dropWhile.simps(2) list.set_intros(1) set_rev)
  ultimately show ?thesis by (simp add: strip_space_def)
qed

lemma py_str_no_space: "x \<in> set (py_str i) \<Longrightarrow> \<not> is_space x"
proof -
  assume "x \<in> set (py_str i)"
  then have "x = CHR ''-'' \<or> x \<in> set (digits (nat (- i))) \<or> x \<in> set (digits (nat i))"
    by (auto simp: py_str_def split: if_splits)
  then show ?thesis
  proof (elim disjE)
    assume "x = CHR ''-''"
    then show ?thesis by (simp add: is_space_def)
  next
    assume "x \<in> set (digits (nat (- i)))"
    then have "digit_val x \<noteq> None" by (rule digits_are_digits)
    then show ?thesis using digit_not_space by auto
  next
    assume "x \<in> set (digits (nat i))"
    then have "digit_val x \<noteq> None" by (rule digits_are_digits)
    then show ?thesis using digit_not_space by auto
  qed
qed

lemma py_int_py_str: "py_int (py_str i) = Some i"
proof -
  have strip: "strip_space (py_str i) = py_str i"
    by (rule strip_space_id) (rule py_str_no_space)
  show ?thesis
  proof (cases "i < 0")
    case True
    then have neg: "py_str i = CHR ''-'' # digits (nat (- i))" by (simp add: py_str_def)
    have "py_int (CHR ''-'' # digits (nat (- i))) = Some i"
      using True strip by (simp add: py_int_def neg parse_number_digits)
    then show ?thesis by (simp only: neg)
  next
    case False
    obtain c cs where d: "digits (nat i) = c # cs"
      using digits_not_Nil [of "nat i"] by (cases "digits (nat i)") auto
    have "c \<noteq> CHR ''-'' \<and> c \<noteq> CHR ''+''"
      using digits_no_sign [of "nat i"] d by auto
    moreover have "parse_number (c # cs) = Some (nat i)"
      using parse_number_digits [of "nat i"] d by simp
    moreover have "strip_space (c # cs) = c # cs"
      using strip False d by (simp add: py_str_def)
    ultimately show ?thesis
      using False d by (simp add: py_int_def py_str_def)
  qed
qed

lemma py_str_inj: "py_str i = py_str j \<Longrightarrow> i = j"
  by (metis py_int_py_str option.inject)

lemma py_str_eq_iff: "py_str i = py_str j \<longleftrightarrow> i = j"
  using py_str_inj by auto




lemma shard_file_eq_iff: "shard_file (py_str i) = shard_file (py_str j) \<longleftrightarrow> i = j"
  by (simp add: shard_file_def py_str_eq_iff)

lemma replica_file_level_inj: "replica_file key r = replica_file key r' \<Longrightarrow> r = r'"
  by (simp add: replica_file_def py_str_eq_iff)

lemma finite_replica_levels: "finite {r'. data_exists (replica_file key r') st}"
proof (cases "data_dir st")
  case None
  then show ?thesis by (simp add: data_exists_def read_data_def)
next
  case (Some fs)
  have inj: "inj (replica_file key)"
    by (rule injI) (rule replica_file_level_inj)
  have "{r'. data_exists (replica_file key r') st} \<subseteq> replica_file key -` dom (map_of fs)"
    using Some by (auto simp: data_exists_def read_data_def)
  moreover have "finite (replica_file key -` dom (map_of fs))"
    using inj by (intro finite_vimageI) (simp_all add: finite_dom_map_of)
  ultimately show ?thesis by (rule finite_subset)
qed

termination free_level
proof (relation "measure (\<lambda>(st, key, r). card {r'. r \<le> r' \<and> data_exists (replica_file key r') st})")
  show "wf (measure (\<lambda>(st, key, r). card {r'. r \<le> r' \<and> data_exists (replica_file key r') st}))"
    by simp
next
  fix st :: state and key r :: int
  assume ex: "data_exists (replica_file key r) st"
  let ?A = "{r'. r \<le> r' \<and> data_exists (replica_file key r') st}"
  let ?B = "{r'. r + 1 \<le> r' \<and> data_exists (replica_file key r') st}"
  have fin: "finite ?A"
    by (rule finite_subset [OF _ finite_replica_levels [of key st]]) auto
  have "r \<in> ?A" "r \<notin> ?B" "?B \<subseteq> ?A" using ex by auto
  then have "?B \<subset> ?A" by blast
  then have "card ?B < card ?A" using fin by (rule psubset_card_mono [rotated])
  then show "((st, key, r + 1), (st, key, r))
      \<in> measure (\<lambda>(st, key, r). card {r'. r \<le> r' \<and> data_exists (replica_file key r') st})"
    by simp
qed

section \<open>Facts about the split\<close>

lemma slice_index_nat: "slice_index xs (int i) = min i (length xs)"
  by (simp add: slice_index_def Let_def min_def)

lemma py_slice_chunk: "py_slice xs (int b * int z) (int b * (int z + 1)) = take b (drop (b * z) xs)"
proof -
  have a: "int b * int z = int (b * z)" by simp
  have e: "int b * (int z + 1) = int (b * z + b)" by (simp add: algebra_simps)
  show ?thesis
    unfolding py_slice_def a e slice_index_nat
    by (cases "b * z \<le> length xs") (auto simp: min_def)
qed

lemma py_slice_from_neg: "r \<le> length xs \<Longrightarrow> 0 < r \<Longrightarrow> py_slice_from xs (- int r) = drop (length xs - r) xs"
  by (simp add: py_slice_from_def slice_index_def Let_def nat_diff_distrib')

lemma generate_sharded_data_split_policy:
  assumes "0 < n"
  shows "generate_sharded_data (int n) data = Inr (split_policy n data)"
proof -
  define b where "b = length data div n"
  define r where "r = length data mod n"
  define f where "f = (\<lambda>z. take b (drop (b * z) data))"
  have len: "length data = b * n + r" by (simp add: b_def r_def)
  have n1: "b * (n - 1) + b = b * n" using assms by (cases n) simp_all
  have upt: "[0..<n] = [0..<n - 1] @ [n - 1]" using assms by (cases n) simp_all
  have res: "map (\<lambda>z. py_slice data (int b * z) (int b * (z + 1))) (py_range (int n)) = map f [0..<n - 1] @ [f (n - 1)]"
  proof -
    have "map (\<lambda>z. py_slice data (int b * z) (int b * (z + 1))) (py_range (int n)) = map f [0..<n]"
      by (simp add: py_range_def f_def py_slice_chunk o_def)
    also have "\<dots> = map f [0..<n - 1] @ [f (n - 1)]"
      by (subst upt) simp
    finally show ?thesis .
  qed
  have divs: "int (length data) div int n = int b" "int (length data) mod int n = int r"
    by (simp_all add: b_def r_def zdiv_int zmod_int)
  have lastc: "f (n - 1) @ drop (length data - r) data = drop (b * (n - 1)) data"
  proof -
    have "drop (length data - r) data = drop b (drop (b * (n - 1)) data)"
      using len n1 by (simp add: add.commute)
    then show ?thesis
      using append_take_drop_id [of b "drop (b * (n - 1)) data"] by (simp only: f_def)
  qed
  have lastz: "r = 0 \<Longrightarrow> f (n - 1) = drop (b * (n - 1)) data"
    using len n1 by (simp add: f_def)
  have rle: "r \<le> length data" using len by simp
  have ne: "py_range (int n) \<noteq> []" using assms by (simp add: py_range_def)
  show ?thesis
  proof (cases "r > 0")
    case True
    then show ?thesis
      using assms rle lastc ne
      by (simp add: generate_sharded_data_def divs res py_slice_from_neg split_policy_def Let_def b_def [symmetric] f_def [symmetric])
  next
    case False
    then show ?thesis
      using assms lastz
      by (simp add: generate_sharded_data_def divs res split_policy_def Let_def b_def [symmetric] f_def [symmetric])
  qed
qed

lemma concat_chunks: "concat (map (\<lambda>z. take b (drop (b * z) xs)) [0..<m]) = take (b * m) xs"
proof (induction m)
  case 0
  show ?case by simp
next
  case (Suc m)
  have "take (b * Suc m) xs = take (b * m + b) xs" by (simp add: add.commute)
  also have "\<dots> = take (b * m) xs @ take b (drop (b * m) xs)" by (rule take_add)
  finally show ?case using Suc by simp
qed

lemma length_split_policy: "0 < n \<Longrightarrow> length (split_policy n data) = n"
  by (simp add: split_policy_def Let_def)

lemma concat_split_policy: "concat (split_policy n data) = data"
  by (simp add: split_policy_def Let_def concat_chunks)

lemma split_policy_base_length:
  assumes "0 < n" "n \<le> length data" "i < n - 1"
  shows "length (split_policy n data ! i) = length data div n"
proof -
  define b where "b = length data div n"
  have "b * n \<le> length data" by (simp add: b_def)
  moreover have "b * i + b \<le> b * n"
  proof -
    have "Suc i \<le> n" using assms by simp
    then have "b * Suc i \<le> b * n" by (rule mult_le_mono2)
    then show ?thesis by simp
  qed
  ultimately have "b * i + b \<le> length data" by simp
  then show ?thesis using assms
    by (simp add: split_policy_def Let_def nth_append b_def [symmetric])
qed

lemma split_policy_last_length:
  assumes "0 < n"
  shows "length (last (split_policy n data)) = length data div n + length data mod n"
proof -
  define b where "b = length data div n"
  have "length data = b * n + length data mod n" by (simp add: b_def)
  moreover have "b * (n - 1) + b = b * n" using assms by (cases n) simp_all
  ultimately show ?thesis
    by (simp add: split_policy_def Let_def b_def [symmetric])
qed

section \<open>Facts about writing the shards\<close>

lemma read_data_write_data:
  "read_data name (write_data f c st) = (if name = f then Some c else read_data name st)"
  by (simp add: read_data_def write_data_def update_conv' split: option.splits)

lemma read_data_write_shard:
  "read_data name (write_shard num d st) =
     (if name = shard_file (py_str num) then Some d else read_data name st)"
  by (simp add: write_shard_def Let_def read_data_def write_data_def reset_char_position_def
      update_conv' split: option.splits)

lemma files_write_shard:
  "mapfile (write_shard num d st) = mapfile st" "cwd_files (write_shard num d st) = cwd_files st"
  by (simp_all add: write_shard_def Let_def write_data_def reset_char_position_def)

lemma keys_write_shard:
  "map fst (mapping (write_shard num d st)) =
     (if py_str num \<in> set (map fst (mapping st)) then map fst (mapping st)
      else map fst (mapping st) @ [py_str num])"
  by (simp add: write_shard_def Let_def write_data_def reset_char_position_def update_keys
      del: set_map)

lemma read_data_write_shards_other:
  "(\<And>j. j < length ds \<Longrightarrow> name \<noteq> shard_file (py_str (n + int j))) \<Longrightarrow>
     read_data name (write_shards (enumerate_from n ds) st) = read_data name st"
proof (induction ds arbitrary: n st)
  case Nil
  show ?case by simp
next
  case (Cons d ds)
  have "read_data name (write_shards (enumerate_from (n + 1) ds) (write_shard n d st)) =
      read_data name (write_shard n d st)"
  proof (rule Cons.IH)
    fix j assume "j < length ds"
    then have "Suc j < length (d # ds)" by simp
    then have "name \<noteq> shard_file (py_str (n + int (Suc j)))" by (rule Cons.prems)
    then show "name \<noteq> shard_file (py_str (n + 1 + int j))" by (simp add: add.assoc)
  qed
  moreover have "name \<noteq> shard_file (py_str n)" using Cons.prems [of 0] by simp
  ultimately show ?case by (simp add: read_data_write_shard)
qed

lemma read_data_write_shards:
  "j < length ds \<Longrightarrow>
     read_data (shard_file (py_str (n + int j))) (write_shards (enumerate_from n ds) st) = Some (ds ! j)"
proof (induction ds arbitrary: n st j)
  case Nil
  then show ?case by simp
next
  case (Cons d ds)
  show ?case
  proof (cases j)
    case 0
    have "read_data (shard_file (py_str n)) (write_shards (enumerate_from (n + 1) ds) (write_shard n d st))
        = read_data (shard_file (py_str n)) (write_shard n d st)"
      by (rule read_data_write_shards_other) (simp add: shard_file_eq_iff)
    with 0 show ?thesis by (simp add: read_data_write_shard)
  next
    case (Suc k)
    then have "k < length ds" using Cons.prems by simp
    then have "read_data (shard_file (py_str (n + 1 + int k)))
        (write_shards (enumerate_from (n + 1) ds) (write_shard n d st)) = Some (ds ! k)"
      by (rule Cons.IH)
    with Suc show ?thesis by (simp add: ac_simps)
  qed
qed

lemma files_write_shards:
  "mapfile (write_shards nds st) = mapfile st" "cwd_files (write_shards nds st) = cwd_files st"
  by (induction nds st rule: write_shards.induct) (simp_all add: files_write_shard)

lemma keys_write_shards:
  "(\<And>j. j < length ds \<Longrightarrow> py_str (n + int j) \<notin> set (map fst (mapping st))) \<Longrightarrow>
     map fst (mapping (write_shards (enumerate_from n ds) st)) =
       map fst (mapping st) @ map (\<lambda>j. py_str (n + int j)) [0..<length ds]"
proof (induction ds arbitrary: n st)
  case Nil
  show ?case by simp
next
  case (Cons d ds)
  have new: "py_str n \<notin> set (map fst (mapping st))" using Cons.prems [of 0] by simp
  then have keys: "map fst (mapping (write_shard n d st)) = map fst (mapping st) @ [py_str n]"
    by (simp only: keys_write_shard if_False)
  have "map fst (mapping (write_shards (enumerate_from (n + 1) ds) (write_shard n d st))) =
      map fst (mapping (write_shard n d st)) @ map (\<lambda>j. py_str (n + 1 + int j)) [0..<length ds]"
  proof (rule Cons.IH)
    fix j assume j: "j < length ds"
    then have "Suc j < length (d # ds)" by simp
    then have "py_str (n + int (Suc j)) \<notin> set (map fst (mapping st))" by (rule Cons.prems)
    then show "py_str (n + 1 + int j) \<notin> set (map fst (mapping (write_shard n d st)))"
      unfolding keys by (simp add: add.assoc py_str_eq_iff)
  qed
  moreover have "map (\<lambda>j. py_str (n + int j)) [0..<length (d # ds)] =
      py_str n # map (\<lambda>j. py_str (n + 1 + int j)) [0..<length ds]"
    by (simp add: map_upt_Suc ac_simps del: upt_Suc)
  ultimately show ?case unfolding keys by simp
qed

lemma read_text_None_iff: "read_text name st = None \<longleftrightarrow> read_data name st = None"
  by (simp add: read_text_def)

lemma read_text_fields:
  "read_text name (st\<lparr>rep_count := r\<rparr>) = read_text name st"
  "read_text name (st\<lparr>mapping := m\<rparr>) = read_text name st"
  by (simp_all add: read_text_def read_data_def)

lemma universal_newlines_id: "CHR 0x0D \<notin> set xs \<Longrightarrow> universal_newlines xs = xs"
  by (induction xs rule: universal_newlines.induct) auto



lemma map_universal_newlines_id:
  "CHR 0x0D \<notin> set (concat cs) \<Longrightarrow> map universal_newlines cs = cs"
  by (induction cs) (simp_all add: universal_newlines_id)

lemma read_shards_all:
  "length ks = length cs \<Longrightarrow>
   (\<And>j. j < length ks \<Longrightarrow> read_data (shard_file (ks ! j)) st = Some (cs ! j)) \<Longrightarrow>
   read_shards ks st = Inr (map universal_newlines cs)"
proof (induction ks cs rule: list_induct2)
  case Nil
  show ?case by simp
next
  case (Cons k ks c cs)
  have "read_text (shard_file k) st = Some (universal_newlines c)"
    using Cons.prems [of 0] by (simp add: read_text_def)
  moreover have "read_shards ks st = Inr (map universal_newlines cs)"
  proof (rule Cons.IH)
    fix j assume "j < length ks"
    then show "read_data (shard_file (ks ! j)) st = Some (cs ! j)"
      using Cons.prems [of "Suc j"] by simp
  qed
  ultimately show ?case by simp
qed

lemma read_data_write_map: "read_data name (write_map st) = read_data name st"
  by (simp add: read_data_def write_map_def)

lemma fields_write_map:
  "mapping (write_map st) = mapping st" "mapfile (write_map st) = Some (mapping st)"
  "cwd_files (write_map st) = cwd_files st" "data_dir (write_map st) = data_dir st"
  by (simp_all add: write_map_def)

lemma read_shards_write_map: "read_shards ks (write_map st) = read_shards ks st"
  by (induction ks) (simp_all add: read_text_def read_data_write_map split: option.splits)

section \<open>Facts about the sync pass\<close>

lemma files_kept_refl: "files_kept st st"
  by (simp add: files_kept_def)

lemma files_kept_trans: "files_kept a b \<Longrightarrow> files_kept b c \<Longrightarrow> files_kept a c"
  by (simp add: files_kept_def)

lemma data_exists_write_data:
  "data_exists name (write_data f c st) = (name = f \<or> data_exists name st)"
  by (simp add: data_exists_def read_data_write_data)

lemma files_kept_write_data: "files_kept st (write_data f c st)"
  by (simp add: files_kept_def data_exists_write_data) (simp add: write_data_def)

lemma files_kept_rep_count: "files_kept st (st\<lparr>rep_count := r\<rparr>)"
  by (simp add: files_kept_def data_exists_def read_data_def)

lemma files_kept_mapping: "files_kept st (st\<lparr>mapping := m\<rparr>)"
  by (simp add: files_kept_def data_exists_def read_data_def)

lemma sync_replicas_kept: "files_kept st (sync_replicas a key n st)"
proof (induction n arbitrary: st)
  case 0
  show ?case by (simp add: files_kept_refl)
next
  case (Suc n)
  define st1 where "st1 =
    (case read_text (replica_file key (rep_count st)) st of
       None \<Rightarrow> st
     | Some b \<Rightarrow> if a \<noteq> b then write_data (replica_file key (rep_count st)) a st else st)"
  have "files_kept st st1"
    by (simp add: st1_def files_kept_refl files_kept_write_data split: option.splits)
  moreover have "files_kept st1 (st1\<lparr>rep_count := rep_count st1 + 1\<rparr>)"
    by (rule files_kept_rep_count)
  moreover have "files_kept (st1\<lparr>rep_count := rep_count st1 + 1\<rparr>)
      (sync_replicas a key n (st1\<lparr>rep_count := rep_count st1 + 1\<rparr>))"
    by (rule Suc.IH)
  ultimately have "files_kept st (sync_replicas a key n (st1\<lparr>rep_count := rep_count st1 + 1\<rparr>))"
    by (blast intro: files_kept_trans)
  then show ?case by (simp add: st1_def Let_def)
qed

lemma restore_primary_kept:
  assumes rec: "\<And>s res s'. rec s = Some (res, s') \<Longrightarrow> files_kept s s'"
  shows "restore_primary rec key n st = Some (res, st') \<Longrightarrow> files_kept st st'"
proof (induction n arbitrary: st)
  case 0
  then show ?case by (simp add: files_kept_refl)
next
  case (Suc n)
  let ?bump = "st\<lparr>rep_count := rep_count st + 1\<rparr>"
  have skip: "restore_primary rec key n ?bump = Some (res, st') \<Longrightarrow> files_kept st st'"
    using Suc.IH [of ?bump] files_kept_rep_count [of st] by (blast intro: files_kept_trans)
  show ?case
  proof (cases "read_text (replica_file key (rep_count st)) st")
    case None
    with Suc.prems skip show ?thesis by simp
  next
    case (Some a)
    show ?thesis
    proof (cases "map_of (mapping st) (py_str key)")
      case None
      with Some Suc.prems show ?thesis by (simp add: files_kept_refl)
    next
      case (Some r)
      note r = this
      show ?thesis
      proof (cases "range_end r - range_start r = int (length a)")
        case False
        with \<open>read_text (replica_file key (rep_count st)) st = Some a\<close> r Suc.prems skip
        show ?thesis by simp
      next
        case True
        let ?w = "write_data (shard_file (py_str key)) a st"
        from True \<open>read_text (replica_file key (rep_count st)) st = Some a\<close> r Suc.prems
        have run: "(case rec ?w of
                    None \<Rightarrow> None
                  | Some (Inl e, s') \<Rightarrow> Some (Inl e, s')
                  | Some (Inr u, s') \<Rightarrow>
                      restore_primary rec key n (s'\<lparr>rep_count := rep_count s' + 1\<rparr>)) = Some (res, st')"
          by simp
        then obtain rr s' where rw: "rec ?w = Some (rr, s')"
          by (cases "rec ?w") auto
        have k1: "files_kept st s'"
          using files_kept_write_data [of st] rec [OF rw] by (blast intro: files_kept_trans)
        show ?thesis
        proof (cases rr)
          case (Inl e)
          with run rw k1 show ?thesis by simp
        next
          case (Inr u)
          with run rw have "restore_primary rec key n (s'\<lparr>rep_count := rep_count s' + 1\<rparr>) = Some (res, st')"
            by simp
          then have "files_kept (s'\<lparr>rep_count := rep_count s' + 1\<rparr>) st'" by (rule Suc.IH)
          with k1 files_kept_rep_count [of s'] show ?thesis by (blast intro: files_kept_trans)
        qed
      qed
    qed
  qed
qed

lemma sync_keys_kept:
  assumes rec: "\<And>s res s'. rec s = Some (res, s') \<Longrightarrow> files_kept s s'"
  shows "sync_keys rec mf ks st = Some (res, st') \<Longrightarrow> files_kept st st'"
proof (induction ks arbitrary: st)
  case Nil
  then show ?case by (simp add: files_kept_refl)
next
  case (Cons key ks)
  let ?st1 = "st\<lparr>rep_count := 1\<rparr>"
  have k1: "files_kept st ?st1" by (rule files_kept_rep_count)
  show ?case
  proof (cases "read_text (shard_file (py_str key)) ?st1")
    case (Some a)
    with Cons.prems have "sync_keys rec mf ks (sync_replicas a key (Suc mf) ?st1) = Some (res, st')"
      by (simp add: Let_def)
    then have "files_kept (sync_replicas a key (Suc mf) ?st1) st'" by (rule Cons.IH)
    with k1 sync_replicas_kept [of ?st1 a key "Suc mf"] show ?thesis
      by (blast intro: files_kept_trans)
  next
    case None
    with Cons.prems have run: "(case restore_primary rec key (Suc mf) ?st1 of
             None \<Rightarrow> None
           | Some (Inl e, s') \<Rightarrow> Some (Inl e, s')
           | Some (Inr u, s') \<Rightarrow> sync_keys rec mf ks s') = Some (res, st')"
      by (simp add: Let_def)
    then obtain rr s' where rp: "restore_primary rec key (Suc mf) ?st1 = Some (rr, s')"
      by (cases "restore_primary rec key (Suc mf) ?st1") auto
    have "files_kept ?st1 s'"
      using rp by (rule restore_primary_kept [rotated]) (rule rec)
    with k1 have k2: "files_kept st s'" by (blast intro: files_kept_trans)
    show ?thesis
    proof (cases rr)
      case (Inl e)
      with run rp k2 show ?thesis by simp
    next
      case (Inr u)
      with run rp have "sync_keys rec mf ks s' = Some (res, st')" by simp
      then have "files_kept s' st'" by (rule Cons.IH)
      with k2 show ?thesis by (blast intro: files_kept_trans)
    qed
  qed
qed

lemma sync_body_kept:
  assumes rec: "\<And>s res s'. rec s = Some (res, s') \<Longrightarrow> files_kept s s'"
  shows "sync_body rec st = Some (res, st') \<Longrightarrow> files_kept st st'"
proof -
  assume run: "sync_body rec st = Some (res, st')"
  let ?st1 = "st\<lparr>mapping := load_map st\<rparr>"
  have k1: "files_kept st ?st1" by (rule files_kept_mapping)
  show ?thesis
  proof (cases "int_keys (map fst (load_map st))")
    case None
    with run k1 show ?thesis by (simp add: sync_body_def Let_def)
  next
    case (Some keys)
    show ?thesis
    proof (cases "data_dir st")
      case None
      with Some run k1 show ?thesis by (simp add: sync_body_def Let_def)
    next
      case (Some fs)
      with \<open>int_keys (map fst (load_map st)) = Some keys\<close> run
      have "sync_keys rec (max_files fs ?st1) (sort keys) ?st1 = Some (res, st')"
        by (simp add: sync_body_def Let_def)
      then have "files_kept ?st1 st'" by (rule sync_keys_kept [rotated]) (rule rec)
      with k1 show ?thesis by (blast intro: files_kept_trans)
    qed
  qed
qed

lemma sync_replication_kept:
  "sync_replication n st = Some (res, st') \<Longrightarrow> files_kept st st'"
proof (induction n arbitrary: st res st')
  case 0
  then show ?case by simp
next
  case (Suc n)
  from Suc.prems have "sync_body (sync_replication n) st = Some (res, st')" by simp
  then show ?case by (rule sync_body_kept [rotated]) (rule Suc.IH)
qed

subsection \<open>The pass returns\<close>

lemma length_filter_mono:
  "(\<And>x. x \<in> set xs \<Longrightarrow> P x \<Longrightarrow> Q x) \<Longrightarrow> length (filter P xs) \<le> length (filter Q xs)"
  by (induction xs) auto

lemma length_filter_less:
  "(\<And>x. x \<in> set xs \<Longrightarrow> P x \<Longrightarrow> Q x) \<Longrightarrow> y \<in> set xs \<Longrightarrow> Q y \<Longrightarrow> \<not> P y \<Longrightarrow>
     length (filter P xs) < length (filter Q xs)"
proof (induction xs)
  case Nil
  then show ?case by simp
next
  case (Cons x xs)
  have le: "length (filter P xs) \<le> length (filter Q xs)"
    by (rule length_filter_mono) (simp add: Cons.prems(1))
  show ?case
  proof (cases "y = x")
    case True
    with Cons.prems le show ?thesis by simp
  next
    case False
    with Cons.prems have "y \<in> set xs" by simp
    then have "length (filter P xs) < length (filter Q xs)"
      using Cons.prems by (intro Cons.IH) simp_all
    with Cons.prems(1) [of x] show ?thesis by auto
  qed
qed

lemma load_map_kept: "files_kept st st' \<Longrightarrow> load_map st' = load_map st"
  by (simp add: files_kept_def load_map_def)

lemma missing_primaries_le:
  assumes "files_kept st st'"
  shows "missing_primaries st' \<le> missing_primaries st"
proof (cases "int_keys (map fst (load_map st))")
  case None
  then show ?thesis using assms by (simp add: missing_primaries_def load_map_kept)
next
  case (Some keys)
  have "length (filter (\<lambda>k. \<not> data_exists (shard_file (py_str k)) st') (remdups keys))
      \<le> length (filter (\<lambda>k. \<not> data_exists (shard_file (py_str k)) st) (remdups keys))"
    using assms by (intro length_filter_mono) (auto simp: files_kept_def)
  with Some show ?thesis using assms by (simp add: missing_primaries_def load_map_kept)
qed

lemma missing_primaries_less:
  assumes "files_kept st st'" and "int_keys (map fst (load_map st)) = Some keys"
    and "key \<in> set keys" and "\<not> data_exists (shard_file (py_str key)) st"
    and "data_exists (shard_file (py_str key)) st'"
  shows "missing_primaries st' < missing_primaries st"
proof -
  have "length (filter (\<lambda>k. \<not> data_exists (shard_file (py_str k)) st') (remdups keys))
      < length (filter (\<lambda>k. \<not> data_exists (shard_file (py_str k)) st) (remdups keys))"
  proof (rule length_filter_less)
    show "key \<in> set (remdups keys)" using assms(3) by simp
    show "\<not> data_exists (shard_file (py_str key)) st" by (rule assms(4))
    show "\<not> \<not> data_exists (shard_file (py_str key)) st'" using assms(5) by simp
  next
    fix x assume "\<not> data_exists (shard_file (py_str x)) st'"
    then show "\<not> data_exists (shard_file (py_str x)) st"
      using assms(1) by (auto simp: files_kept_def)
  qed
  then show ?thesis using assms(1,2) by (simp add: missing_primaries_def load_map_kept)
qed

lemma data_exists_fields:
  "data_exists name (st\<lparr>rep_count := r\<rparr>) = data_exists name st"
  "data_exists name (st\<lparr>mapping := m\<rparr>) = data_exists name st"
  by (simp_all add: data_exists_def read_data_def)

lemma missing_primaries_rep_count: "missing_primaries (st\<lparr>rep_count := r\<rparr>) = missing_primaries st"
  by (simp add: missing_primaries_def load_map_def data_exists_fields cong: option.case_cong)

lemma missing_primaries_mapping: "missing_primaries (st\<lparr>mapping := m\<rparr>) = missing_primaries st"
  by (simp add: missing_primaries_def load_map_def data_exists_fields cong: option.case_cong)

lemma restore_primary_returns:
  assumes tot: "\<And>s. missing_primaries s < n \<Longrightarrow> rec s \<noteq> None"
    and kept: "\<And>s res s'. rec s = Some (res, s') \<Longrightarrow> files_kept s s'"
    and keys: "int_keys (map fst (load_map st)) = Some keys" "key \<in> set keys"
    and inv: "(\<not> data_exists (shard_file (py_str key)) st \<and> missing_primaries st \<le> n)
              \<or> missing_primaries st < n"
  shows "restore_primary rec key m st \<noteq> None"
  using keys inv
proof (induction m arbitrary: st)
  case 0
  show ?case by simp
next
  case (Suc m)
  let ?bump = "st\<lparr>rep_count := rep_count st + 1\<rparr>"
  have skip: "restore_primary rec key m ?bump \<noteq> None"
  proof (rule Suc.IH)
    show "int_keys (map fst (load_map ?bump)) = Some keys"
      using Suc.prems(1) by (simp add: load_map_def)
    show "key \<in> set keys" by (rule Suc.prems(2))
    show "(\<not> data_exists (shard_file (py_str key)) ?bump \<and> missing_primaries ?bump \<le> n)
              \<or> missing_primaries ?bump < n"
      using Suc.prems(3) by (simp add: missing_primaries_rep_count data_exists_def read_data_def)
  qed
  show ?case
  proof (cases "read_text (replica_file key (rep_count st)) st")
    case None
    with skip show ?thesis by simp
  next
    case (Some a)
    note a = this
    show ?thesis
    proof (cases "map_of (mapping st) (py_str key)")
      case None
      with a show ?thesis by simp
    next
      case (Some r)
      show ?thesis
      proof (cases "range_end r - range_start r = int (length a)")
        case False
        with a Some skip show ?thesis by simp
      next
        case True
        let ?w = "write_data (shard_file (py_str key)) a st"
        have kw: "files_kept st ?w" by (rule files_kept_write_data)
        have less: "missing_primaries ?w < n"
        proof (cases "data_exists (shard_file (py_str key)) st")
          case False
          have "missing_primaries ?w < missing_primaries st"
            using kw Suc.prems(1,2) False
            by (rule missing_primaries_less) (simp add: data_exists_write_data)
          with Suc.prems(3) show ?thesis by auto
        next
          case True
          with Suc.prems(3) missing_primaries_le [OF kw] show ?thesis by auto
        qed
        then have "rec ?w \<noteq> None" by (rule tot)
        then obtain rr s' where rw: "rec ?w = Some (rr, s')" by (cases "rec ?w") auto
        have ks: "files_kept ?w s'" using rw by (rule kept)
        show ?thesis
        proof (cases rr)
          case (Inl e)
          with a Some True rw show ?thesis by simp
        next
          case (Inr u)
          let ?b = "s'\<lparr>rep_count := rep_count s' + 1\<rparr>"
          have "restore_primary rec key m ?b \<noteq> None"
          proof (rule Suc.IH)
            have "load_map s' = load_map st"
              using load_map_kept [OF ks] load_map_kept [OF kw] by simp
            then show "int_keys (map fst (load_map ?b)) = Some keys"
              using Suc.prems(1) by (simp add: load_map_def)
            show "key \<in> set keys" by (rule Suc.prems(2))
            have "missing_primaries ?b < n"
              using missing_primaries_le [OF ks] less by (simp add: missing_primaries_rep_count)
            then show "(\<not> data_exists (shard_file (py_str key)) ?b \<and> missing_primaries ?b \<le> n)
                \<or> missing_primaries ?b < n" by simp
          qed
          with a Some True rw Inr show ?thesis by simp
        qed
      qed
    qed
  qed
qed

lemma sync_keys_returns:
  assumes tot: "\<And>s. missing_primaries s < n \<Longrightarrow> rec s \<noteq> None"
    and kept: "\<And>s res s'. rec s = Some (res, s') \<Longrightarrow> files_kept s s'"
  shows "int_keys (map fst (load_map st)) = Some keys \<Longrightarrow> set ks \<subseteq> set keys \<Longrightarrow>
     missing_primaries st \<le> n \<Longrightarrow> sync_keys rec mf ks st \<noteq> None"
proof (induction ks arbitrary: st)
  case Nil
  show ?case by simp
next
  case (Cons key ks)
  let ?st1 = "st\<lparr>rep_count := 1\<rparr>"
  have keys1: "int_keys (map fst (load_map ?st1)) = Some keys"
    using Cons.prems(1) by (simp add: load_map_def)
  have m1: "missing_primaries ?st1 \<le> n"
    using Cons.prems(3) by (simp add: missing_primaries_rep_count)
  show ?case
  proof (cases "read_text (shard_file (py_str key)) ?st1")
    case (Some a)
    let ?s = "sync_replicas a key (Suc mf) ?st1"
    have k: "files_kept ?st1 ?s" by (rule sync_replicas_kept)
    have "sync_keys rec mf ks ?s \<noteq> None"
    proof (rule Cons.IH)
      show "int_keys (map fst (load_map ?s)) = Some keys"
        using keys1 load_map_kept [OF k] by simp
      show "set ks \<subseteq> set keys" using Cons.prems(2) by simp
      show "missing_primaries ?s \<le> n" using missing_primaries_le [OF k] m1 by simp
    qed
    with Some show ?thesis by (simp add: Let_def)
  next
    case None
    have "restore_primary rec key (Suc mf) ?st1 \<noteq> None"
    proof (rule restore_primary_returns [OF tot kept keys1])
      show "key \<in> set keys" using Cons.prems(2) by simp
      show "(\<not> data_exists (shard_file (py_str key)) ?st1 \<and> missing_primaries ?st1 \<le> n)
              \<or> missing_primaries ?st1 < n"
        using None m1 by (simp add: data_exists_def read_text_def)
    qed
    then obtain rr s' where rp: "restore_primary rec key (Suc mf) ?st1 = Some (rr, s')"
      by (cases "restore_primary rec key (Suc mf) ?st1") auto
    have k: "files_kept ?st1 s'"
      using rp by (rule restore_primary_kept [rotated]) (rule kept)
    show ?thesis
    proof (cases rr)
      case (Inl e)
      with None rp show ?thesis by (simp add: Let_def)
    next
      case (Inr u)
      have "sync_keys rec mf ks s' \<noteq> None"
      proof (rule Cons.IH)
        show "int_keys (map fst (load_map s')) = Some keys"
          using keys1 load_map_kept [OF k] by simp
        show "set ks \<subseteq> set keys" using Cons.prems(2) by simp
        show "missing_primaries s' \<le> n" using missing_primaries_le [OF k] m1 by simp
      qed
      with None rp Inr show ?thesis by (simp add: Let_def)
    qed
  qed
qed

lemma sync_replication_returns:
  "missing_primaries st < n \<Longrightarrow> sync_replication n st \<noteq> None"
proof (induction n arbitrary: st)
  case 0
  then show ?case by simp
next
  case (Suc n)
  let ?st1 = "st\<lparr>mapping := load_map st\<rparr>"
  show ?case
  proof (cases "int_keys (map fst (load_map st))")
    case None
    then show ?thesis by (simp add: sync_body_def Let_def)
  next
    case (Some keys)
    show ?thesis
    proof (cases "data_dir st")
      case None
      with Some show ?thesis by (simp add: sync_body_def Let_def)
    next
      case (Some fs)
      have "sync_keys (sync_replication n) (max_files fs ?st1) (sort keys) ?st1 \<noteq> None"
      proof (rule sync_keys_returns)
        show "\<And>s. missing_primaries s < n \<Longrightarrow> sync_replication n s \<noteq> None" by (rule Suc.IH)
        show "\<And>s res s'. sync_replication n s = Some (res, s') \<Longrightarrow> files_kept s s'"
          by (rule sync_replication_kept)
        show "int_keys (map fst (load_map ?st1)) = Some keys"
          using \<open>int_keys (map fst (load_map st)) = Some keys\<close> by (simp add: load_map_def)
        show "set (sort keys) \<subseteq> set keys" by simp
        show "missing_primaries ?st1 \<le> n"
          using Suc.prems by (simp add: missing_primaries_mapping)
      qed
      with Some \<open>int_keys (map fst (load_map st)) = Some keys\<close> show ?thesis
        by (simp add: sync_body_def Let_def)
    qed
  qed
qed

subsection \<open>A larger bound gives the same result\<close>

lemma restore_primary_mono:
  assumes le: "\<And>s r. rec s = Some r \<Longrightarrow> rec' s = Some r"
  shows "restore_primary rec key m st = Some (out, st') \<Longrightarrow>
     restore_primary rec' key m st = Some (out, st')"
proof (induction m arbitrary: st)
  case 0
  then show ?case by simp
next
  case (Suc m)
  show ?case
  proof (cases "read_text (replica_file key (rep_count st)) st")
    case None
    with Suc.prems Suc.IH show ?thesis by simp
  next
    case (Some a)
    note a = this
    show ?thesis
    proof (cases "map_of (mapping st) (py_str key)")
      case None
      with a Suc.prems show ?thesis by simp
    next
      case (Some r)
      show ?thesis
      proof (cases "range_end r - range_start r = int (length a)")
        case False
        with a Some Suc.prems Suc.IH show ?thesis by simp
      next
        case True
        let ?w = "write_data (shard_file (py_str key)) a st"
        from a Some True Suc.prems obtain rr s' where rw: "rec ?w = Some (rr, s')"
          by (cases "rec ?w") auto
        then have rw': "rec' ?w = Some (rr, s')" by (rule le)
        show ?thesis
        proof (cases rr)
          case (Inl e)
          with a Some True Suc.prems rw rw' show ?thesis by auto
        next
          case (Inr u)
          with a Some True Suc.prems rw
          have "restore_primary rec key m (s'\<lparr>rep_count := rep_count s' + 1\<rparr>) = Some (out, st')"
            by simp
          then have "restore_primary rec' key m (s'\<lparr>rep_count := rep_count s' + 1\<rparr>) = Some (out, st')"
            by (rule Suc.IH)
          with a Some True rw' Inr show ?thesis by simp
        qed
      qed
    qed
  qed
qed

lemma sync_keys_mono:
  assumes le: "\<And>s r. rec s = Some r \<Longrightarrow> rec' s = Some r"
  shows "sync_keys rec mf ks st = Some (out, st') \<Longrightarrow> sync_keys rec' mf ks st = Some (out, st')"
proof (induction ks arbitrary: st)
  case Nil
  then show ?case by simp
next
  case (Cons key ks)
  let ?st1 = "st\<lparr>rep_count := 1\<rparr>"
  show ?case
  proof (cases "read_text (shard_file (py_str key)) ?st1")
    case (Some a)
    with Cons.prems Cons.IH show ?thesis by (simp add: Let_def)
  next
    case None
    with Cons.prems obtain rr s' where rp: "restore_primary rec key (Suc mf) ?st1 = Some (rr, s')"
      by (cases "restore_primary rec key (Suc mf) ?st1")
        (auto simp: Let_def simp del: restore_primary.simps)
    then have rp': "restore_primary rec' key (Suc mf) ?st1 = Some (rr, s')"
      by (rule restore_primary_mono [rotated]) (rule le)
    show ?thesis
    proof (cases rr)
      case (Inl e)
      with None Cons.prems rp rp' show ?thesis
        by (auto simp: Let_def simp del: restore_primary.simps)
    next
      case (Inr u)
      with None Cons.prems rp have "sync_keys rec mf ks s' = Some (out, st')"
        by (simp add: Let_def del: restore_primary.simps)
      then have "sync_keys rec' mf ks s' = Some (out, st')" by (rule Cons.IH)
      with None rp' Inr show ?thesis by (simp add: Let_def del: restore_primary.simps)
    qed
  qed
qed

lemma sync_body_mono:
  assumes le: "\<And>s r. rec s = Some r \<Longrightarrow> rec' s = Some r"
  shows "sync_body rec st = Some (out, st') \<Longrightarrow> sync_body rec' st = Some (out, st')"
  using sync_keys_mono [of rec rec', OF le]
  by (auto simp: sync_body_def Let_def split: option.splits)

lemma sync_replication_Suc:
  "sync_replication n st = Some res \<Longrightarrow> sync_replication (Suc n) st = Some res"
proof (induction n arbitrary: st res)
  case 0
  then show ?case by simp
next
  case (Suc n)
  obtain out st' where res: "res = (out, st')" by (cases res)
  from Suc.prems have "sync_body (sync_replication n) st = Some (out, st')" by (simp add: res)
  then have "sync_body (sync_replication (Suc n)) st = Some (out, st')"
    by (rule sync_body_mono [rotated]) (rule Suc.IH)
  then show ?case by (simp add: res)
qed

lemma sync_replication_add:
  "sync_replication n st = Some res \<Longrightarrow> sync_replication (n + k) st = Some res"
  by (induction k) (simp_all add: sync_replication_Suc del: sync_replication.simps)

section \<open>Facts about removing a shard\<close>













section \<open>The claims\<close>

subsection \<open>Building\<close>

text \<open>
  C1. The claim: after \<open>buildShards\<close> the ranges of the mapping are contiguous, so that
  \<open>buildShards(5, "ABCDEFGHIJ")\<close> gives [0,2), [2,4), [4,6), [6,8), [8,10). The code, run on
  that input from an empty mapping and no files, gives the ranges (0,2), (3,4), (5,6), (7,8),
  (9,10): from the second shard on, \<open>_write_shard\<close> starts a range one past the end of the
  previous one, so the ranges leave gaps and are one shorter than the contents \<open>AB\<close>, ...,
  \<open>IJ\<close> they stand for.
\<close>

theorem build_shards_ranges_have_gaps:
  "build_shards 5 ''ABCDEFGHIJ'' (new_handler None None []) =
     (Inr None,
      \<lparr>mapping =
         [(''0'', \<lparr>range_start = 0, range_end = 2\<rparr>),
          (''1'', \<lparr>range_start = 3, range_end = 4\<rparr>),
          (''2'', \<lparr>range_start = 5, range_end = 6\<rparr>),
          (''3'', \<lparr>range_start = 7, range_end = 8\<rparr>),
          (''4'', \<lparr>range_start = 9, range_end = 10\<rparr>)],
       last_char_position = 10, rep_count = 1,
       mapfile =
         Some
          [(''0'', \<lparr>range_start = 0, range_end = 2\<rparr>),
           (''1'', \<lparr>range_start = 3, range_end = 4\<rparr>),
           (''2'', \<lparr>range_start = 5, range_end = 6\<rparr>),
           (''3'', \<lparr>range_start = 7, range_end = 8\<rparr>),
           (''4'', \<lparr>range_start = 9, range_end = 10\<rparr>)],
       data_dir =
         Some
          [(''0.txt'', ''AB''), (''1.txt'', ''CD''), (''2.txt'', ''EF''),
           (''3.txt'', ''GH''), (''4.txt'', ''IJ'')],
       cwd_files = []\<rparr>)"
  by code_simp

text \<open>
  C2. For a positive count \<open>n\<close> no larger than the length of the text, \<open>build_shards\<close> on
  an empty mapping returns \<open>None\<close>; the mapping then has exactly the keys \<open>0\<close> to \<open>n - 1\<close>, in
  that order, and is the one persisted; the characters stored in the shard files \<open>0\<close> to
  \<open>n - 1\<close>, in ascending order, are the pieces of the split policy, \<open>n\<close> of them, whose
  concatenation is the text; each of the shards 0 to \<open>n - 2\<close> has the length of the text
  divided by \<open>n\<close> (rounded down) and the last one has that many characters and the
  remainder. \<open>load_data_from_shards\<close> reads the files in text mode, so it returns the pieces
  with their carriage returns read as line feeds; for a text with no carriage return that
  is the text itself.
\<close>

theorem build_shards_roundtrip:
  assumes "0 < n" and "n \<le> int (length corpus)" and "mapping st = []"
  shows "fst (build_shards n corpus st) = Inr None
    \<and> map fst (mapping (snd (build_shards n corpus st))) = map py_str (py_range n)
    \<and> mapfile (snd (build_shards n corpus st)) = Some (mapping (snd (build_shards n corpus st)))
    \<and> map (\<lambda>i. read_data (shard_file (py_str i)) (snd (build_shards n corpus st))) (py_range n) =
        map Some (split_policy (nat n) corpus)
    \<and> length (split_policy (nat n) corpus) = nat n
    \<and> concat (split_policy (nat n) corpus) = corpus
    \<and> (\<forall>i < nat n - 1. length (split_policy (nat n) corpus ! i) = length corpus div nat n)
    \<and> length (last (split_policy (nat n) corpus)) =
        length corpus div nat n + length corpus mod nat n
    \<and> load_data_from_shards (snd (build_shards n corpus st)) =
        Inr (concat (map universal_newlines (split_policy (nat n) corpus)))
    \<and> (CHR 0x0D \<notin> set corpus \<longrightarrow>
        load_data_from_shards (snd (build_shards n corpus st)) = Inr corpus)"
proof -
  define m where "m = nat n"
  define cs where "cs = split_policy m corpus"
  define st' where "st' = write_shards (enumerate_from 0 cs) st"
  have m: "0 < m" "n = int m" "m \<le> length corpus" using assms by (simp_all add: m_def)
  have gen: "generate_sharded_data n corpus = Inr cs"
    unfolding cs_def m(2) using m(1) by (rule generate_sharded_data_split_policy)
  have len: "length cs = m" using m(1) by (simp add: cs_def length_split_policy)
  have run: "build_shards n corpus st = (Inr None, write_map st')"
    using assms(3) by (simp add: build_shards_def gen st'_def)
  have keys: "map fst (mapping st') = map py_str (py_range n)"
  proof -
    have "map fst (mapping st') = map fst (mapping st) @ map (\<lambda>j. py_str (0 + int j)) [0..<length cs]"
      unfolding st'_def by (rule keys_write_shards) (simp add: assms(3))
    then show ?thesis by (simp add: assms(3) len m(2) py_range_def o_def)
  qed
  have at: "\<And>j. j < m \<Longrightarrow> read_data (shard_file (py_str (int j))) st' = Some (cs ! j)"
  proof -
    fix j assume "j < m"
    then have "j < length cs" by (simp add: len)
    then have "read_data (shard_file (py_str (0 + int j))) st' = Some (cs ! j)"
      unfolding st'_def by (rule read_data_write_shards)
    then show "read_data (shard_file (py_str (int j))) st' = Some (cs ! j)" by simp
  qed
  have stored: "map (\<lambda>i. read_data (shard_file (py_str i)) st') (py_range n) = map Some cs"
    using at by (simp add: list_eq_iff_nth_eq py_range_def m(2) len)
  have reads: "read_shards (map py_str (py_range n)) st' = Inr (map universal_newlines cs)"
  proof (rule read_shards_all)
    show "length (map py_str (py_range n)) = length cs" by (simp add: py_range_def m(2) len)
  next
    fix j assume "j < length (map py_str (py_range n))"
    then have j: "j < m" by (simp add: py_range_def m(2))
    then show "read_data (shard_file (map py_str (py_range n) ! j)) st' = Some (cs ! j)"
      using at [of j] by (simp add: py_range_def m(2))
  qed
  have cat: "concat cs = corpus" by (simp add: cs_def concat_split_policy)
  have load: "load_data_from_shards (write_map st') = Inr (concat (map universal_newlines cs))"
    by (simp add: load_data_from_shards_def fields_write_map keys read_shards_write_map reads)
  have plain: "CHR 0x0D \<notin> set corpus \<longrightarrow> load_data_from_shards (write_map st') = Inr corpus"
  proof
    assume a: "CHR 0x0D \<notin> set corpus"
    have "CHR 0x0D \<notin> set (concat cs)" unfolding cat by (rule a)
    then have "map universal_newlines cs = cs" by (rule map_universal_newlines_id)
    with load cat show "load_data_from_shards (write_map st') = Inr corpus" by simp
  qed
  have base: "\<forall>i < m - 1. length (cs ! i) = length corpus div m"
    using m by (simp add: cs_def split_policy_base_length)
  have lst: "length (last cs) = length corpus div m + length corpus mod m"
    using m(1) by (simp add: cs_def split_policy_last_length)
  show ?thesis
    unfolding run using keys stored len cat base lst load plain
    by (simp add: read_data_write_map fields_write_map cs_def m_def)
qed

theorem build_shards_roundtrip_witness:
  "0 < (5::int) \<and> 5 \<le> int (length ''ABCDEFGHIJK'') \<and> mapping (new_handler None None []) = []
   \<and> fst (build_shards 5 ''ABCDEFGHIJK'' (new_handler None None [])) = Inr None
   \<and> map (\<lambda>i. read_data (shard_file (py_str i))
          (snd (build_shards 5 ''ABCDEFGHIJK'' (new_handler None None [])))) (py_range 5) =
      map Some [''AB'', ''CD'', ''EF'', ''GH'', ''IJK'']
   \<and> load_data_from_shards (snd (build_shards 5 ''ABCDEFGHIJK'' (new_handler None None []))) =
      Inr ''ABCDEFGHIJK''
   \<and> load_data_from_shards
        (snd (build_shards 2 [CHR ''A'', CHR 0x0D, CHR ''B'', CHR 0x0D] (new_handler None None []))) =
      Inr [CHR ''A'', CHR 0x0A, CHR ''B'', CHR 0x0A]"
proof -
  have h1: "0 < (5::int)" by simp
  have h2: "5 \<le> int (length ''ABCDEFGHIJK'')" by simp
  have h3: "mapping (new_handler None None []) = []" by (simp add: new_handler_def)
  have sp: "split_policy (nat 5) ''ABCDEFGHIJK'' = [''AB'', ''CD'', ''EF'', ''GH'', ''IJK'']"
    by code_simp
  have cr: "CHR 0x0D \<notin> set ''ABCDEFGHIJK''" by simp
  have g1: "0 < (2::int)" by simp
  have g2: "2 \<le> int (length [CHR ''A'', CHR 0x0D, CHR ''B'', CHR 0x0D])" by simp
  have sp2: "concat (map universal_newlines
      (split_policy (nat 2) [CHR ''A'', CHR 0x0D, CHR ''B'', CHR 0x0D])) =
      [CHR ''A'', CHR 0x0A, CHR ''B'', CHR 0x0A]"
    by code_simp
  from build_shards_roundtrip [OF h1 h2 h3] build_shards_roundtrip [OF g1 g2 h3] h1 h2 h3 cr
  show ?thesis
    unfolding sp sp2 by blast
qed

text \<open>
  C7. On a non-empty mapping, \<open>build_shards\<close> returns its "already exists" message for every
  count and every text, and the state (handler, map file and shard files) is unchanged.
\<close>

theorem build_shards_already_sharded:
  "mapping st \<noteq> [] \<Longrightarrow> build_shards count data st = (Inr (Some already_sharded), st)"
  by (simp add: build_shards_def)

theorem build_shards_already_sharded_witness:
  "mapping (new_handler (Some [(''0'', \<lparr>range_start = 0, range_end = 2\<rparr>)]) None []) \<noteq> []
   \<and> build_shards 5 ''ABCDEFGHIJ'' (new_handler (Some [(''0'', \<lparr>range_start = 0, range_end = 2\<rparr>)]) None [])
     = (Inr (Some already_sharded),
        new_handler (Some [(''0'', \<lparr>range_start = 0, range_end = 2\<rparr>)]) None [])"
  using build_shards_already_sharded
    [of "new_handler (Some [(''0'', \<lparr>range_start = 0, range_end = 2\<rparr>)]) None []" 5 "''ABCDEFGHIJ''"]
  by (simp add: new_handler_def)

lemma generate_sharded_data_no_error:
  assumes "count \<noteq> 0"
  shows "\<exists>spliced. generate_sharded_data count data = Inr spliced"
proof (cases "int (length data) mod count > 0")
  case True
  have "count > 0"
  proof (rule ccontr)
    assume "\<not> count > 0"
    with assms have "count < 0" by simp
    then have "int (length data) mod count \<le> 0" by (rule neg_mod_sign)
    with True show False by simp
  qed
  then have "py_range count \<noteq> []" by (simp add: py_range_def)
  with True assms show ?thesis by (simp add: generate_sharded_data_def Let_def)
next
  case False
  with assms show ?thesis by (simp add: generate_sharded_data_def Let_def)
qed

text \<open>
  C5, as the code has it. On an empty mapping \<open>build_shards\<close> raises only for the
  count 0 (the division by zero of \<open>divmod\<close>), and then nothing has been written; every
  other count, negative or larger than the text is long, is accepted and the call returns
  \<open>None\<close>.
\<close>

theorem build_shards_rejects_only_zero:
  "mapping st = [] \<Longrightarrow>
     (if count = 0 then build_shards count data st = (Inl ZeroDivisionError, st)
      else fst (build_shards count data st) = Inr None)"
  using generate_sharded_data_no_error [of count data]
  by (auto simp: build_shards_def generate_sharded_data_def)

theorem build_shards_rejects_only_zero_witness:
  "mapping (new_handler None None []) = []
   \<and> build_shards 0 ''AB'' (new_handler None None []) = (Inl ZeroDivisionError, new_handler None None [])
   \<and> fst (build_shards 3 ''AB'' (new_handler None None [])) = Inr None"
  using build_shards_rejects_only_zero [of "new_handler None None []" 0 "''AB''"]
    build_shards_rejects_only_zero [of "new_handler None None []" 3 "''AB''"]
  by (simp add: new_handler_def)

text \<open>
  Against C5 as stated: a count of 3 on the two characters \<open>AB\<close> is not rejected. Three
  shards are written (two empty ones and \<open>AB\<close>) with the map file. A count of -3 is not
  rejected either: no shard is written and an empty mapping is persisted.
\<close>

theorem build_shards_accepts_large_count:
  "build_shards 3 ''AB'' (new_handler None None []) =
     (Inr None,
      \<lparr>mapping =
         [(''0'', \<lparr>range_start = 0, range_end = 0\<rparr>),
          (''1'', \<lparr>range_start = 0, range_end = 0\<rparr>),
          (''2'', \<lparr>range_start = 0, range_end = 2\<rparr>)],
       last_char_position = 2, rep_count = 1,
       mapfile =
         Some
          [(''0'', \<lparr>range_start = 0, range_end = 0\<rparr>),
           (''1'', \<lparr>range_start = 0, range_end = 0\<rparr>),
           (''2'', \<lparr>range_start = 0, range_end = 2\<rparr>)],
       data_dir = Some [(''0.txt'', ''''), (''1.txt'', ''''), (''2.txt'', ''AB'')],
       cwd_files = []\<rparr>)
   \<and> build_shards (- 3) ''AB'' (new_handler None None []) =
     (Inr None,
      \<lparr>mapping = [], last_char_position = 0, rep_count = 1, mapfile = Some [],
       data_dir = None, cwd_files = []\<rparr>)"
  by code_simp

subsection \<open>Removing a shard\<close>



subsection \<open>Reading the mapping\<close>

text \<open>
  C9. \<open>get_shard_data(0)\<close> returns the handler's whole mapping, which is what
  \<open>get_all_shard_data\<close> and \<open>get_shard_data()\<close> return: the argument is tested for its
  truth value, and 0 is false. It never returns the information of one shard.
\<close>

theorem get_shard_data_zero_is_all:
  "get_shard_data (PyInt 0) st = AllShards (mapping st)
   \<and> get_all_shard_data st = mapping st
   \<and> get_shard_data PyNone st = AllShards (mapping st)
   \<and> get_shard_data (PyInt 0) st \<noteq> ShardInfo (PyInt 0) r"
  by (simp add: get_shard_data_def get_all_shard_data_def)

subsection \<open>The sync pass on concrete files\<close>

text \<open>
  C3. The claim: a missing primary with exactly one replica of the expected length is
  restored by the sync pass. The code probes the levels 1 to \<open>max_files + 1\<close>, and
  \<open>max_files\<close> is 0 unless a name listed in \<open>data/\<close> also names a file of the working
  directory. With the mapping \<open>{"0": {start: 0, end: 2}}\<close>, no primary \<open>0.txt\<close> and the only
  replica of length 2 at level 2 (alone, or behind a truncated replica at level 1), the pass
  returns without a recursive call and without writing \<open>0.txt\<close>. (The third equation is
  the same mapping with the replica at level 1: there the primary is restored.)
\<close>

theorem sync_replication_misses_level_two:
  "sync_replication 1
     (new_handler (Some [(''0'', \<lparr>range_start = 0, range_end = 2\<rparr>)])
        (Some [(''0-2.txt'', ''AB'')]) []) =
   Some (Inr (),
     \<lparr>mapping = [(''0'', \<lparr>range_start = 0, range_end = 2\<rparr>)],
      last_char_position = 0, rep_count = 2,
      mapfile = Some [(''0'', \<lparr>range_start = 0, range_end = 2\<rparr>)],
      data_dir = Some [(''0-2.txt'', ''AB'')], cwd_files = []\<rparr>)
   \<and> sync_replication 1
     (new_handler (Some [(''0'', \<lparr>range_start = 0, range_end = 2\<rparr>)])
        (Some [(''0-1.txt'', ''A''), (''0-2.txt'', ''AB'')]) []) =
   Some (Inr (),
     \<lparr>mapping = [(''0'', \<lparr>range_start = 0, range_end = 2\<rparr>)],
      last_char_position = 0, rep_count = 2,
      mapfile = Some [(''0'', \<lparr>range_start = 0, range_end = 2\<rparr>)],
      data_dir = Some [(''0-1.txt'', ''A''), (''0-2.txt'', ''AB'')], cwd_files = []\<rparr>)
   \<and> sync_replication 2
     (new_handler (Some [(''0'', \<lparr>range_start = 0, range_end = 2\<rparr>)])
        (Some [(''0-1.txt'', ''AB'')]) []) =
   Some (Inr (),
     \<lparr>mapping = [(''0'', \<lparr>range_start = 0, range_end = 2\<rparr>)],
      last_char_position = 0, rep_count = 3,
      mapfile = Some [(''0'', \<lparr>range_start = 0, range_end = 2\<rparr>)],
      data_dir = Some [(''0-1.txt'', ''AB''), (''0.txt'', ''AB'')], cwd_files = []\<rparr>)"
  by code_simp

text \<open>
  C6. The claim: \<open>add_replication\<close> ends by running the sync pass. On a shard \<open>AB\<close> whose
  replica at level 1 has drifted to \<open>XY\<close>, \<open>add_replication\<close> writes level 2 and returns
  with level 1 still \<open>XY\<close>; the sync pass run on the state it returns rewrites level 1 to
  \<open>AB\<close>, so that pass has not been run.
\<close>

theorem add_replication_does_not_sync:
  "add_replication
     (new_handler (Some [(''0'', \<lparr>range_start = 0, range_end = 2\<rparr>)])
        (Some [(''0.txt'', ''AB''), (''0-1.txt'', ''XY'')]) []) =
   (Inr (),
     \<lparr>mapping = [(''0'', \<lparr>range_start = 0, range_end = 2\<rparr>)],
      last_char_position = 0, rep_count = 2,
      mapfile = Some [(''0'', \<lparr>range_start = 0, range_end = 2\<rparr>)],
      data_dir = Some [(''0.txt'', ''AB''), (''0-1.txt'', ''XY''), (''0-2.txt'', ''AB'')],
      cwd_files = []\<rparr>)
   \<and> sync_replication 1
     \<lparr>mapping = [(''0'', \<lparr>range_start = 0, range_end = 2\<rparr>)],
      last_char_position = 0, rep_count = 2,
      mapfile = Some [(''0'', \<lparr>range_start = 0, range_end = 2\<rparr>)],
      data_dir = Some [(''0.txt'', ''AB''), (''0-1.txt'', ''XY''), (''0-2.txt'', ''AB'')],
      cwd_files = []\<rparr> =
   Some (Inr (),
     \<lparr>mapping = [(''0'', \<lparr>range_start = 0, range_end = 2\<rparr>)],
      last_char_position = 0, rep_count = 2,
      mapfile = Some [(''0'', \<lparr>range_start = 0, range_end = 2\<rparr>)],
      data_dir = Some [(''0.txt'', ''AB''), (''0-1.txt'', ''AB''), (''0-2.txt'', ''AB'')],
      cwd_files = []\<rparr>)"
  by code_simp

text \<open>
  C4. The claim: after \<open>add_replication\<close> and then the sync pass every replica equals its
  primary, no level being skipped. From no files at all, \<open>build_shards(2, "ABCD")\<close>, two
  calls of \<open>add_replication\<close> and \<open>add_shard\<close> give the first state below (primaries
  \<open>A\<close>, \<open>B\<close>, \<open>CD\<close>; the level 2 replicas still \<open>AB\<close> and \<open>CD\<close>). On it,
  \<open>add_replication\<close> followed by the sync pass leaves \<open>0-2.txt\<close> as \<open>AB\<close> beside the primary
  \<open>A\<close> and \<open>1-2.txt\<close> as \<open>CD\<close> beside \<open>B\<close>: the pass looks at level 1 only.
\<close>

theorem sync_after_add_replication_leaves_stale_level:
  "add_shard 1
     (snd (add_replication (snd (add_replication
        (snd (build_shards 2 ''ABCD'' (new_handler None None []))))))) =
   Some (Inr (),
     \<lparr>mapping =
        [(''0'', \<lparr>range_start = 0, range_end = 1\<rparr>),
         (''1'', \<lparr>range_start = 2, range_end = 2\<rparr>),
         (''2'', \<lparr>range_start = 3, range_end = 4\<rparr>)],
      last_char_position = 4, rep_count = 2,
      mapfile =
        Some
         [(''0'', \<lparr>range_start = 0, range_end = 1\<rparr>),
          (''1'', \<lparr>range_start = 2, range_end = 2\<rparr>),
          (''2'', \<lparr>range_start = 3, range_end = 4\<rparr>)],
      data_dir =
        Some
         [(''0.txt'', ''A''), (''1.txt'', ''B''), (''0-1.txt'', ''A''),
          (''1-1.txt'', ''B''), (''0-2.txt'', ''AB''),
          (''1-2.txt'', ''CD''), (''2.txt'', ''CD'')],
      cwd_files = []\<rparr>)
   \<and> (case add_replication
     \<lparr>mapping =
        [(''0'', \<lparr>range_start = 0, range_end = 1\<rparr>),
         (''1'', \<lparr>range_start = 2, range_end = 2\<rparr>),
         (''2'', \<lparr>range_start = 3, range_end = 4\<rparr>)],
      last_char_position = 4, rep_count = 2,
      mapfile =
        Some
         [(''0'', \<lparr>range_start = 0, range_end = 1\<rparr>),
          (''1'', \<lparr>range_start = 2, range_end = 2\<rparr>),
          (''2'', \<lparr>range_start = 3, range_end = 4\<rparr>)],
      data_dir =
        Some
         [(''0.txt'', ''A''), (''1.txt'', ''B''), (''0-1.txt'', ''A''),
          (''1-1.txt'', ''B''), (''0-2.txt'', ''AB''),
          (''1-2.txt'', ''CD''), (''2.txt'', ''CD'')],
      cwd_files = []\<rparr> of (r, st) \<Rightarrow> (r, sync_replication 1 st)) =
   (Inr (), Some (Inr (),
     \<lparr>mapping =
        [(''0'', \<lparr>range_start = 0, range_end = 1\<rparr>),
         (''1'', \<lparr>range_start = 2, range_end = 2\<rparr>),
         (''2'', \<lparr>range_start = 3, range_end = 4\<rparr>)],
      last_char_position = 4, rep_count = 2,
      mapfile =
        Some
         [(''0'', \<lparr>range_start = 0, range_end = 1\<rparr>),
          (''1'', \<lparr>range_start = 2, range_end = 2\<rparr>),
          (''2'', \<lparr>range_start = 3, range_end = 4\<rparr>)],
      data_dir =
        Some
         [(''0.txt'', ''A''), (''1.txt'', ''B''), (''0-1.txt'', ''A''),
          (''1-1.txt'', ''B''), (''0-2.txt'', ''AB''), (''1-2.txt'', ''CD''),
          (''2.txt'', ''CD''), (''0-3.txt'', ''A''), (''1-3.txt'', ''B''),
          (''2-3.txt'', ''CD'')],
      cwd_files = []\<rparr>))"
  by code_simp

subsection \<open>Termination of the sync pass\<close>

text \<open>
  C10. The sync pass always returns: the recursive call is made only on the state in which
  the missing primary has just been written, every step of the pass keeps the files that
  exist, so the number of shards of the persisted mapping with a missing primary is smaller
  in every nested call, and a recursion depth of that number plus one is enough. A larger
  bound on the depth gives the same result.
\<close>

theorem sync_replication_terminates:
  "(\<exists>res. sync_replication (Suc (missing_primaries st)) st = Some res)
   \<and> (\<forall>k. sync_replication (Suc (missing_primaries st) + k) st =
          sync_replication (Suc (missing_primaries st)) st)"
proof -
  have "sync_replication (Suc (missing_primaries st)) st \<noteq> None"
    by (rule sync_replication_returns) simp
  then obtain res where r: "sync_replication (Suc (missing_primaries st)) st = Some res"
    by auto
  then have "\<forall>k. sync_replication (Suc (missing_primaries st) + k) st = Some res"
    using sync_replication_add by blast
  with r show ?thesis by simp
qed

end
